theory Spec2Isabelle
  imports Main
begin

section \<open>Python values, exceptions and containers\<close>

text \<open>
  The drivers of \<^verbatim>\<open>cocotb/drivers/amba.py\<close> are Python coroutines. Every value sampled
  from a bus signal with \<^verbatim>\<open>int(...)\<close> is an unsigned integer, hence a \<open>nat\<close>; a value
  handed in by a caller (a response code given to \<^verbatim>\<open>setWrResponse\<close>) is a Python
  integer, hence an \<open>int\<close>. An exception is a value of \<open>py_error\<close>.
  \<open>AXIProtocolError a c\<close> carries the address and the response code of its message.
\<close>

datatype py_error =
    ValueError
  | TypeError
  | NameError
  | IndexError
  | StructError
  | AXIProtocolError nat nat

text \<open>
  The names bound in the module's namespace: the imports of lines 29 to 36 and the four
  class statements. A name that is not bound raises \<^verbatim>\<open>NameError\<close> when it is looked up.
\<close>

definition amba_globals :: "string list" where
  "amba_globals =
     [''cocotb'', ''RisingEdge'', ''ReadOnly'', ''Lock'', ''BusDriver'', ''ReturnValue'',
      ''BinaryValue'', ''binascii'', ''array'',
      ''AXIProtocolError'', ''AXI4LiteMaster'', ''AXI4Slave'', ''AXI4LiteSlave'']"

definition name_bound :: "string list \<Rightarrow> string \<Rightarrow> bool" where
  "name_bound g n = (n \<in> set g)"

text \<open>\<^verbatim>\<open>xs[i]\<close> and \<^verbatim>\<open>xs[i] = v\<close> for an index that is not negative.\<close>

definition py_getitem :: "'a list \<Rightarrow> nat \<Rightarrow> py_error + 'a" where
  "py_getitem xs i = (if i < length xs then Inr (xs ! i) else Inl IndexError)"

definition py_setitem :: "'a list \<Rightarrow> nat \<Rightarrow> 'a \<Rightarrow> py_error + 'a list" where
  "py_setitem xs i v = (if i < length xs then Inr (xs[i := v]) else Inl IndexError)"

text \<open>
  \<^verbatim>\<open>xs[s:e]\<close> and \<^verbatim>\<open>xs[s:e] = ys\<close> for bounds that are not negative: a slice is clamped to
  the sequence, and an assignment replaces the slice by \<open>ys\<close> whatever its length.
\<close>

definition py_slice :: "'a list \<Rightarrow> nat \<Rightarrow> nat \<Rightarrow> 'a list" where
  "py_slice xs s e = take (e - s) (drop s xs)"

definition py_slice_assign :: "'a list \<Rightarrow> nat \<Rightarrow> nat \<Rightarrow> 'a list \<Rightarrow> 'a list" where
  "py_slice_assign xs s e ys = take s xs @ ys @ drop (max s e) xs"

text \<open>\<^verbatim>\<open>bool(s)\<close> of a string: true unless the string is empty.\<close>

definition py_bool_str :: "string \<Rightarrow> bool" where
  "py_bool_str s = (s \<noteq> [])"

text \<open>
  \<^verbatim>\<open>struct.pack\<close> and \<^verbatim>\<open>struct.unpack\<close> of one unsigned integer of \<open>n\<close> bytes
  (\<^verbatim>\<open>'I'\<close> is four bytes, \<^verbatim>\<open>'Q'\<close> eight), in standard size, little endian
  (\<^verbatim>\<open>'<'\<close>) or big endian (\<^verbatim>\<open>'>'\<close>).
\<close>

definition le_bytes :: "nat \<Rightarrow> nat \<Rightarrow> nat list" where
  "le_bytes n v = map (\<lambda>i. (v div 256 ^ i) mod 256) [0..<n]"

definition le_value :: "nat list \<Rightarrow> nat" where
  "le_value bs = foldr (\<lambda>b acc. b + 256 * acc) bs 0"

definition struct_pack :: "bool \<Rightarrow> nat \<Rightarrow> nat \<Rightarrow> py_error + nat list" where
  "struct_pack big n v =
     (if v < 256 ^ n then Inr (if big then rev (le_bytes n v) else le_bytes n v)
      else Inl StructError)"

definition struct_unpack :: "bool \<Rightarrow> nat \<Rightarrow> nat list \<Rightarrow> py_error + nat" where
  "struct_unpack big n bs =
     (if length bs = n then Inr (le_value (if big then rev bs else bs))
      else Inl StructError)"

section \<open>Bus signals\<close>

text \<open>
  The signals of the AXI4-Lite agents. A snapshot of the bus gives the unsigned value of
  every signal; an agent reads the signals of its peer from the snapshot of the cycle.
\<close>

datatype signal =
    AWVALID | AWADDR | AWREADY | AWPROT
  | WVALID | WREADY | WDATA | WSTRB
  | BVALID | BREADY | BRESP
  | ARVALID | ARADDR | ARREADY | ARPROT
  | RVALID | RREADY | RRESP | RDATA

type_synonym bus = "signal \<Rightarrow> nat"

section \<open>AXI4-Lite slave\<close>

text \<open>
  The slave is built with \<^verbatim>\<open>sync=True\<close> (the default): each of its three coroutines
  then suspends at \<^verbatim>\<open>yield RisingEdge(self.clock)\<close> and is resumed at the next rising
  edge. A coroutine is modelled by the line of the \<^verbatim>\<open>yield\<close> it is suspended at, with
  the local variables that are live there; resuming it runs the source up to the next
  \<^verbatim>\<open>yield\<close>. A coroutine that raised is finished for good.
\<close>

datatype wa_pc = WA_442 | WA_450 | WA_456

datatype wd_pc =
    WD_467
  | WD_477 nat string
  | WD_482 nat string
  | WD_500 nat string
  | WD_raised py_error

datatype rd_pc = RD_524 | RD_543 | RD_raised py_error

record lite_slave =
  big_endian :: bool
  memory :: "nat list"
  data_width :: nat
  bytes_per_beat :: nat
  bresp :: int
  rresp :: int
  awaddr :: "nat option"
  awprot :: "nat option"
  drv :: bus
  wa :: wa_pc
  wd :: wd_pc
  rd :: rd_pc

text \<open>
  What the slave samples at a rising edge: the bus, and the text of
  \<^verbatim>\<open>str(self.bus.WSTRB.value)\<close>, one character per bit of the strobe signal.
\<close>

record lite_in =
  sampled :: bus
  wstrb_str :: string

text \<open>
  \<^verbatim>\<open>__init__\<close> (lines 385 to 425): the width check raises \<^verbatim>\<open>ValueError\<close>; otherwise the
  latch is empty, the ready signals are driven high, and the three coroutines have run
  to their first \<^verbatim>\<open>yield\<close>, each having driven its ready signal to 1.
\<close>

definition lite_slave_init :: "nat \<Rightarrow> nat list \<Rightarrow> bool \<Rightarrow> bus \<Rightarrow> py_error + lite_slave" where
  "lite_slave_init width mem big b =
     (if \<not> (width = 32 \<or> width = 64) then Inl ValueError
      else Inr \<lparr> big_endian = big, memory = mem, data_width = width,
                 bytes_per_beat = width div 8, bresp = 0, rresp = 0,
                 awaddr = None, awprot = None,
                 drv = b(AWREADY := 1, WREADY := 1, BVALID := 0, ARREADY := 1, RVALID := 0),
                 wa = WA_442, wd = WD_467, rd = RD_524 \<rparr>)"

text \<open>
  \<^verbatim>\<open>setWrResponse\<close> and \<^verbatim>\<open>setRdResponse\<close> (lines 427 to 435). The result is the slave
  after the call and the exception the call raised, if any.
\<close>

definition setWrResponse :: "lite_slave \<Rightarrow> int \<Rightarrow> lite_slave \<times> py_error option" where
  "setWrResponse s code =
     (if \<not> (0 \<le> code \<and> code < 4) then (s, Some ValueError)
      else (s\<lparr>bresp := code\<rparr>, None))"

definition setRdResponse :: "lite_slave \<Rightarrow> int \<Rightarrow> lite_slave \<times> py_error option" where
  "setRdResponse s code =
     (if \<not> (0 \<le> code \<and> code < 4) then (s, Some ValueError)
      else (s\<lparr>rresp := code\<rparr>, None))"

subsection \<open>The write address coroutine (lines 438 to 456)\<close>

text \<open>The truth value of \<^verbatim>\<open>self._awaddr\<close>: \<^verbatim>\<open>None\<close> and 0 are false.\<close>

definition py_truth :: "nat option \<Rightarrow> bool" where
  "py_truth v = (case v of None \<Rightarrow> False | Some a \<Rightarrow> a \<noteq> 0)"

text \<open>The head of the outer loop: drive \<^verbatim>\<open>AWREADY\<close> high and suspend at line 442.\<close>

definition wa_loop_head :: "lite_slave \<Rightarrow> lite_slave" where
  "wa_loop_head s = s\<lparr>drv := (drv s)(AWREADY := 1), wa := WA_442\<rparr>"

text \<open>The test of \<^verbatim>\<open>while self._awaddr:\<close> (line 454).\<close>

definition wa_wait :: "lite_slave \<Rightarrow> lite_slave" where
  "wa_wait s = (if py_truth (awaddr s) then s\<lparr>wa := WA_456\<rparr> else wa_loop_head s)"

definition write_address :: "lite_in \<Rightarrow> lite_slave \<Rightarrow> lite_slave" where
  "write_address i s =
     (case wa s of
        WA_442 \<Rightarrow>
          (if sampled i AWVALID \<noteq> 0
           then s\<lparr>drv := (drv s)(AWREADY := 0),
                  awaddr := Some (sampled i AWADDR),
                  awprot := Some (sampled i AWPROT),
                  wa := WA_450\<rparr>
           else wa_loop_head s)
      | WA_450 \<Rightarrow> wa_wait s
      | WA_456 \<Rightarrow> wa_wait s)"

subsection \<open>The write data coroutine (lines 459 to 517)\<close>

text \<open>
  The loop of lines 491 to 493 over \<^verbatim>\<open>enumerate(_data)\<close>: the test is
  \<^verbatim>\<open>bool(_wstrb[idx])\<close>, the truth value of a string of one character. The result is
  the memory when the loop ends and the exception that ended it, if any.
\<close>

fun strobe_write :: "nat list \<Rightarrow> nat \<Rightarrow> string \<Rightarrow> nat \<Rightarrow> nat list \<Rightarrow> nat list \<times> py_error option" where
  "strobe_write mem a wstrb idx [] = (mem, None)"
| "strobe_write mem a wstrb idx (v # rest) =
     (case py_getitem wstrb idx of
        Inl e \<Rightarrow> (mem, Some e)
      | Inr c \<Rightarrow>
          (if py_bool_str [c]
           then (case py_setitem mem (a + idx) v of
                   Inl e \<Rightarrow> (mem, Some e)
                 | Inr mem' \<Rightarrow> strobe_write mem' a wstrb (Suc idx) rest)
           else strobe_write mem a wstrb (Suc idx) rest))"

text \<open>The head of the outer loop: drive \<^verbatim>\<open>WREADY\<close> high and suspend at line 467.\<close>

definition wd_loop_head :: "lite_slave \<Rightarrow> lite_slave" where
  "wd_loop_head s = s\<lparr>drv := (drv s)(WREADY := 1), wd := WD_467\<rparr>"

text \<open>
  From the test of \<^verbatim>\<open>while (self._awaddr == None)\<close> (line 480) to the next
  \<^verbatim>\<open>yield\<close>: with no address latched the coroutine suspends at line 482; with one,
  it packs the data (the name \<^verbatim>\<open>struct\<close> is looked up in the module's namespace
  \<open>g\<close>), runs the strobe loop, drives the response and suspends at line 500.
\<close>

definition wd_await_address :: "string list \<Rightarrow> nat \<Rightarrow> string \<Rightarrow> lite_slave \<Rightarrow> lite_slave" where
  "wd_await_address g wdata wstrb s =
     (case awaddr s of
        None \<Rightarrow> s\<lparr>wd := WD_482 wdata wstrb\<rparr>
      | Some a \<Rightarrow>
          (if \<not> name_bound g ''struct'' then s\<lparr>wd := WD_raised NameError\<rparr>
           else
             (case struct_pack (big_endian s) (if bytes_per_beat s = 4 then 4 else 8) wdata of
                Inl e \<Rightarrow> s\<lparr>wd := WD_raised e\<rparr>
              | Inr data \<Rightarrow>
                  (case strobe_write (memory s) a wstrb 0 data of
                     (mem', Some e) \<Rightarrow> s\<lparr>memory := mem', wd := WD_raised e\<rparr>
                   | (mem', None) \<Rightarrow>
                       s\<lparr>memory := mem',
                         drv := (drv s)(BRESP := nat (bresp s), BVALID := 1),
                         wd := WD_500 wdata wstrb\<rparr>))))"

text \<open>
  \<^verbatim>\<open>int(_wstrb, 2)\<close> in the debug message of line 509 raises \<^verbatim>\<open>ValueError\<close> unless
  the text is binary digits.
\<close>

definition binary_digits :: "string \<Rightarrow> bool" where
  "binary_digits s = (s \<noteq> [] \<and> list_all (\<lambda>c. c = CHR ''0'' \<or> c = CHR ''1'') s)"

definition write_data :: "string list \<Rightarrow> lite_in \<Rightarrow> lite_slave \<Rightarrow> lite_slave" where
  "write_data g i s =
     (case wd s of
        WD_467 \<Rightarrow>
          (if sampled i WVALID \<noteq> 0
           then s\<lparr>drv := (drv s)(WREADY := 0), wd := WD_477 (sampled i WDATA) (wstrb_str i)\<rparr>
           else wd_loop_head s)
      | WD_477 wdata wstrb \<Rightarrow> wd_await_address g wdata wstrb s
      | WD_482 wdata wstrb \<Rightarrow> wd_await_address g wdata wstrb s
      | WD_500 wdata wstrb \<Rightarrow>
          (if sampled i BREADY \<noteq> 0
           then (if \<not> binary_digits wstrb then s\<lparr>wd := WD_raised ValueError\<rparr>
                 else wd_loop_head
                        (s\<lparr>drv := (drv s)(BVALID := 0), awaddr := None, awprot := None\<rparr>))
           else s)
      | WD_raised e \<Rightarrow> s)"

subsection \<open>The read coroutine (lines 520 to 555)\<close>

definition rd_loop_head :: "lite_slave \<Rightarrow> lite_slave" where
  "rd_loop_head s = s\<lparr>drv := (drv s)(ARREADY := 1), rd := RD_524\<rparr>"

definition read_data :: "string list \<Rightarrow> lite_in \<Rightarrow> lite_slave \<Rightarrow> lite_slave" where
  "read_data g i s =
     (case rd s of
        RD_524 \<Rightarrow>
          (if sampled i ARVALID \<noteq> 0
           then
             (let s1 = s\<lparr>drv := (drv s)(ARREADY := 0)\<rparr>;
                  a = sampled i ARADDR
              in if \<not> name_bound g ''struct'' then s1\<lparr>rd := RD_raised NameError\<rparr>
                 else
                   (case struct_unpack (big_endian s) (if bytes_per_beat s = 4 then 4 else 8)
                           (py_slice (memory s) a (a + bytes_per_beat s)) of
                      Inl e \<Rightarrow> s1\<lparr>rd := RD_raised e\<rparr>
                    | Inr v \<Rightarrow>
                        s1\<lparr>drv := (drv s1)(RDATA := v, RRESP := nat (rresp s), RVALID := 1),
                           rd := RD_543\<rparr>))
           else rd_loop_head s)
      | RD_543 \<Rightarrow>
          (if sampled i RREADY \<noteq> 0
           then rd_loop_head (s\<lparr>drv := (drv s)(ARREADY := 1)\<rparr>)
           else s)
      | RD_raised e \<Rightarrow> s)"

subsection \<open>The slave over a run of rising edges\<close>

text \<open>
  At a rising edge the three coroutines are resumed in the order in which the
  constructor forked them (lines 423 to 425).
\<close>

definition lite_edge :: "string list \<Rightarrow> lite_slave \<Rightarrow> lite_in \<Rightarrow> lite_slave" where
  "lite_edge g s i = read_data g i (write_data g i (write_address i s))"

definition lite_run :: "string list \<Rightarrow> lite_in list \<Rightarrow> lite_slave \<Rightarrow> lite_slave" where
  "lite_run g is s = foldl (lite_edge g) s is"

section \<open>AXI4 slave with bursts\<close>

text \<open>
  The slave owns the memory image \<^verbatim>\<open>self._memory\<close>, an \<^verbatim>\<open>array.array('B')\<close>.
  A request is the set of fields that \<^verbatim>\<open>_write_data\<close> (lines 283 to 287) and
  \<^verbatim>\<open>_read_data\<close> (lines 332 to 336) latch once the address is valid.
\<close>

record axi4_slave =
  a4_big_endian :: bool
  a4_memory :: "nat list"

record burst_req =
  ax_addr :: nat
  ax_len :: nat
  ax_size :: nat
  ax_burst :: nat
  ax_prot :: nat

text \<open>\<^verbatim>\<open>_size_to_bytes_in_beat\<close> (lines 264 to 267): \<^verbatim>\<open>None\<close> from size 7 on.\<close>

definition size_to_bytes_in_beat :: "nat \<Rightarrow> nat option" where
  "size_to_bytes_in_beat AxSIZE = (if AxSIZE < 7 then Some (2 ^ AxSIZE) else None)"

text \<open>
  Lines 289 to 292 (and 338 to 341): the burst length, the bytes of a beat, and the
  product \<^verbatim>\<open>bytes_in_beat*8\<close>, which raises \<^verbatim>\<open>TypeError\<close> when the bytes of a beat
  are \<^verbatim>\<open>None\<close>. The result is the pair of burst length and bytes of a beat.
\<close>

definition burst_geometry :: "burst_req \<Rightarrow> py_error + nat \<times> nat" where
  "burst_geometry r =
     (let burst_length = ax_len r + 1 in
      case size_to_bytes_in_beat (ax_size r) of
        None \<Rightarrow> Inl TypeError
      | Some bytes_in_beat \<Rightarrow> Inr (burst_length, bytes_in_beat))"

text \<open>
  What the write loop sees after a rising edge: \<^verbatim>\<open>WVALID\<close> and the byte image
  \<^verbatim>\<open>word.get_buff()\<close> of \<^verbatim>\<open>WDATA\<close>.
\<close>

record wbeat_in =
  w_valid :: nat
  w_buff :: "nat list"

text \<open>
  The loop of lines 307 to 318, one sample for each pass. The counter starts at the
  burst length, which is at least 1, and falls by one for each valid beat, so both
  subtractions are exact. The result is the memory, the slices \<open>(_st, _end)\<close>
  assigned in order, and the counter when the samples end (0 once the burst is done).
\<close>

fun write_loop ::
  "nat list \<Rightarrow> nat \<Rightarrow> nat \<Rightarrow> nat \<Rightarrow> nat \<Rightarrow> wbeat_in list \<Rightarrow> nat list \<times> (nat \<times> nat) list \<times> nat" where
  "write_loop mem a burst_length bytes_in_beat burst_count [] = (mem, [], burst_count)"
| "write_loop mem a burst_length bytes_in_beat burst_count (w # rest) =
     (if w_valid w \<noteq> 0 then
        (let burst_diff = burst_length - burst_count;
             st = a + burst_diff * bytes_in_beat;
             en = a + (burst_diff + 1) * bytes_in_beat;
             mem' = py_slice_assign mem st en (w_buff w)
         in if burst_count - 1 = 0 then (mem', [(st, en)], 0)
            else (case write_loop mem' a burst_length bytes_in_beat (burst_count - 1) rest of
                    (m, rs, c) \<Rightarrow> (m, (st, en) # rs, c)))
      else write_loop mem a burst_length bytes_in_beat burst_count rest)"

text \<open>
  One write burst, from the latched request on: the slave afterwards, the exception that
  ended the coroutine if any, the slices assigned and the beats still missing.
\<close>

definition axi4_write_burst ::
  "axi4_slave \<Rightarrow> burst_req \<Rightarrow> wbeat_in list \<Rightarrow> axi4_slave \<times> py_error option \<times> (nat \<times> nat) list \<times> nat" where
  "axi4_write_burst s r ws =
     (case burst_geometry r of
        Inl e \<Rightarrow> (s, Some e, [], 0)
      | Inr (burst_length, bytes_in_beat) \<Rightarrow>
          (case write_loop (a4_memory s) (ax_addr r) burst_length bytes_in_beat burst_length ws of
             (m, rs, c) \<Rightarrow> (s\<lparr>a4_memory := m\<rparr>, None, rs, c)))"

text \<open>
  One pass of the read loop (lines 356 to 371): with \<^verbatim>\<open>RREADY\<close> high the slice
  \<open>(_st, _end)\<close> of the memory is loaded into \<^verbatim>\<open>RDATA\<close>, and \<^verbatim>\<open>RLAST\<close> is driven
  high when the counter is 1; with \<^verbatim>\<open>RREADY\<close> low nothing is driven.
\<close>

datatype rd_pass = Beat nat nat "nat list" bool | Idle

fun rlast :: "rd_pass \<Rightarrow> bool" where
  "rlast (Beat st en bs l) = l"
| "rlast Idle = False"

fun read_loop :: "nat list \<Rightarrow> nat \<Rightarrow> nat \<Rightarrow> nat \<Rightarrow> nat \<Rightarrow> nat list \<Rightarrow> rd_pass list" where
  "read_loop mem a burst_length bytes_in_beat burst_count [] = []"
| "read_loop mem a burst_length bytes_in_beat burst_count (rready # rest) =
     (let pass =
            (if rready \<noteq> 0 then
               (let burst_diff = burst_length - burst_count;
                    st = a + burst_diff * bytes_in_beat;
                    en = a + (burst_diff + 1) * bytes_in_beat
                in Beat st en (py_slice mem st en) (burst_count = 1))
             else Idle)
      in pass # (if burst_count - 1 = 0 then []
                 else read_loop mem a burst_length bytes_in_beat (burst_count - 1) rest))"

text \<open>
  One read burst, from the latched request on, over the samples of \<^verbatim>\<open>RREADY\<close>: the
  slave afterwards, the exception if any, and the passes of the loop.
\<close>

definition axi4_read_burst ::
  "axi4_slave \<Rightarrow> burst_req \<Rightarrow> nat list \<Rightarrow> axi4_slave \<times> py_error option \<times> rd_pass list" where
  "axi4_read_burst s r rreadys =
     (case burst_geometry r of
        Inl e \<Rightarrow> (s, Some e, [])
      | Inr (burst_length, bytes_in_beat) \<Rightarrow>
          (s, None, read_loop (a4_memory s) (ax_addr r) burst_length bytes_in_beat burst_length rreadys))"

section \<open>AXI4-Lite master\<close>

text \<open>
  The master keeps the value it last assigned to each signal it drives, and the width
  in bits of each signal (\<^verbatim>\<open>len(self.bus.ARADDR)\<close>). Nothing else drives these signals,
  so reading one back gives the value the master assigned.
\<close>

record master =
  m_bus :: bus
  m_width :: "signal \<Rightarrow> nat"

text \<open>\<^verbatim>\<open>__init__\<close> (lines 59 to 63).\<close>

definition master_init :: "master \<Rightarrow> master" where
  "master_init m =
     m\<lparr>m_bus := (m_bus m)(AWVALID := 0, WVALID := 0, ARVALID := 0, BREADY := 1, RREADY := 1)\<rparr>"

text \<open>
  \<^verbatim>\<open>__len__\<close> (lines 212 to 213): the value the method returns, a Python integer
  without bound. (The builtin \<^verbatim>\<open>len\<close> of CPython, a caller of the method, refuses a
  value above \<^verbatim>\<open>sys.maxsize\<close>.)
\<close>

definition master_len :: "master \<Rightarrow> nat" where
  "master_len m = 2 ^ m_width m ARADDR"

text \<open>
  A trace gives, for each clock cycle, the bus as it is read in the read-only phase of
  the cycle. \<open>first_sample P tr c\<close> is the loop
  \<^verbatim>\<open>while True: yield ReadOnly(); if P: break; yield RisingEdge(clock)\<close> entered in cycle
  \<open>c\<close>: the first cycle from \<open>c\<close> on whose sample satisfies \<open>P\<close>, with the sample;
  \<open>None\<close> when the trace ends before (the coroutine is still waiting).
\<close>

fun first_from :: "(bus \<Rightarrow> bool) \<Rightarrow> bus list \<Rightarrow> nat \<Rightarrow> (nat \<times> bus) option" where
  "first_from P [] c = None"
| "first_from P (b # tr) c = (if P b then Some (c, b) else first_from P tr (Suc c))"

definition first_sample :: "(bus \<Rightarrow> bool) \<Rightarrow> bus list \<Rightarrow> nat \<Rightarrow> (nat \<times> bus) option" where
  "first_sample P tr c = first_from P (drop c tr) c"

text \<open>
  For the statements: \<open>k\<close> is the first cycle from \<open>c\<close> on, within the trace, whose
  sample satisfies \<open>P\<close>.
\<close>

abbreviation first_cycle :: "(bus \<Rightarrow> bool) \<Rightarrow> bus list \<Rightarrow> nat \<Rightarrow> nat \<Rightarrow> bool" where
  "first_cycle P tr c k \<equiv>
     c \<le> k \<and> k < length tr \<and> P (tr ! k) \<and> (\<forall>j. c \<le> j \<and> j < k \<longrightarrow> \<not> P (tr ! j))"

text \<open>An assignment \<^verbatim>\<open>self.bus.SIG <= v\<close>: the cycle, the signal and the value.\<close>

type_synonym drive = "nat \<times> signal \<times> nat"

definition target :: "drive \<Rightarrow> signal" where
  "target d = fst (snd d)"

definition apply_drives :: "drive list \<Rightarrow> master \<Rightarrow> master" where
  "apply_drives ds m = m\<lparr>m_bus := foldl (\<lambda>b d. b(target d := snd (snd d))) (m_bus m) ds\<rparr>"

text \<open>
  \<^verbatim>\<open>_send_write_address\<close> (lines 71 to 89) and \<^verbatim>\<open>_send_write_data\<close> (lines 92 to 111)
  started in cycle \<open>c\<close> with their lock free: the assignments made, and the cycle in
  which the coroutine ends, if it does within the trace.
\<close>

definition send_write_address :: "bus list \<Rightarrow> nat \<Rightarrow> nat \<Rightarrow> nat \<Rightarrow> drive list \<times> nat option" where
  "send_write_address tr c address delay =
     (let c1 = c + delay;
          ds = [(c1, AWADDR, address), (c1, AWVALID, 1)]
      in case first_sample (\<lambda>b. b AWREADY \<noteq> 0) tr c1 of
           None \<Rightarrow> (ds, None)
         | Some (k, b) \<Rightarrow> (ds @ [(k + 1, AWVALID, 0)], Some (k + 1)))"

definition send_write_data :: "bus list \<Rightarrow> nat \<Rightarrow> nat \<Rightarrow> nat \<Rightarrow> nat \<Rightarrow> drive list \<times> nat option" where
  "send_write_data tr c data delay byte_enable =
     (let c1 = c + delay;
          ds = [(c1, WDATA, data), (c1, WVALID, 1), (c1, WSTRB, byte_enable)]
      in case first_sample (\<lambda>b. b WREADY \<noteq> 0) tr c1 of
           None \<Rightarrow> (ds, None)
         | Some (k, b) \<Rightarrow> (ds @ [(k + 1, WVALID, 0)], Some (k + 1)))"

text \<open>
  The response loops of \<^verbatim>\<open>write\<close> (lines 152 to 157) and \<^verbatim>\<open>read\<close> (lines 198 to 204)
  entered in cycle \<open>c\<close>: the cycle of the handshake and what is captured there.
\<close>

definition await_bresp :: "master \<Rightarrow> bus list \<Rightarrow> nat \<Rightarrow> (nat \<times> nat) option" where
  "await_bresp m tr c =
     (case first_sample (\<lambda>b. b BVALID \<noteq> 0 \<and> m_bus m BREADY \<noteq> 0) tr c of
        None \<Rightarrow> None
      | Some (k, b) \<Rightarrow> Some (k, b BRESP))"

definition await_rresp :: "master \<Rightarrow> bus list \<Rightarrow> nat \<Rightarrow> (nat \<times> nat \<times> nat) option" where
  "await_rresp m tr c =
     (case first_sample (\<lambda>b. b RVALID \<noteq> 0 \<and> m_bus m RREADY \<noteq> 0) tr c of
        None \<Rightarrow> None
      | Some (k, b) \<Rightarrow> Some (k, b RDATA, b RRESP))"

text \<open>
  The outcome of a call: \<open>None\<close> while the coroutine is still waiting when the trace
  ends, \<open>Some (Inl e)\<close> when it raised \<open>e\<close>, \<open>Some (Inr v)\<close> when it returned \<open>v\<close>.
\<close>

type_synonym outcome = "(py_error + nat) option"

text \<open>\<^verbatim>\<open>write\<close> (lines 114 to 165), called in cycle \<open>c\<close>.\<close>

definition master_write ::
  "master \<Rightarrow> bus list \<Rightarrow> nat \<Rightarrow> nat \<Rightarrow> nat \<Rightarrow> nat \<Rightarrow> nat \<Rightarrow> nat \<Rightarrow> bool \<Rightarrow> drive list \<times> outcome" where
  "master_write m tr c address val byte_enable address_latency data_latency sync =
     (let c0 = (if sync then c + 1 else c);
          c_addr = send_write_address tr c0 address address_latency;
          c_data = send_write_data tr c0 val data_latency byte_enable;
          ds = fst c_addr @ fst c_data
      in case (snd c_addr, snd c_data) of
           (Some ca, Some cd) \<Rightarrow>
             (case await_bresp m tr (max ca cd) of
                None \<Rightarrow> (ds, None)
              | Some (k, result) \<Rightarrow>
                  (ds, Some (if result \<noteq> 0 then Inl (AXIProtocolError address result)
                             else Inr result)))
         | _ \<Rightarrow> (ds, None))"

text \<open>\<^verbatim>\<open>read\<close> (lines 168 to 210), called in cycle \<open>c\<close>.\<close>

definition master_read :: "master \<Rightarrow> bus list \<Rightarrow> nat \<Rightarrow> nat \<Rightarrow> bool \<Rightarrow> drive list \<times> outcome" where
  "master_read m tr c address sync =
     (let c0 = (if sync then c + 1 else c);
          ds = [(c0, ARADDR, address), (c0, ARVALID, 1)]
      in case first_sample (\<lambda>b. b ARREADY \<noteq> 0) tr c0 of
           None \<Rightarrow> (ds, None)
         | Some (k, b) \<Rightarrow>
             (let ds' = ds @ [(k + 1, ARVALID, 0)]
              in case await_rresp m tr (k + 1) of
                   None \<Rightarrow> (ds', None)
                 | Some (k', data, result) \<Rightarrow>
                     (ds', Some (if result \<noteq> 0 then Inl (AXIProtocolError address result)
                                 else Inr data))))"

text \<open>
  A call of the master: \<open>Write address value byte_enable address_latency data_latency sync\<close>
  or \<open>Read address sync\<close>. \<open>master_calls\<close> is the master after a sequence of calls,
  each made in the cycle given with it: every assignment of the call is applied to the bus.
\<close>

datatype call = Write nat nat nat nat nat bool | Read nat bool

fun call_drives :: "master \<Rightarrow> bus list \<Rightarrow> nat \<Rightarrow> call \<Rightarrow> drive list" where
  "call_drives m tr c (Write address val byte_enable address_latency data_latency sync) =
     fst (master_write m tr c address val byte_enable address_latency data_latency sync)"
| "call_drives m tr c (Read address sync) = fst (master_read m tr c address sync)"

fun master_calls :: "bus list \<Rightarrow> (nat \<times> call) list \<Rightarrow> master \<Rightarrow> master" where
  "master_calls tr [] m = m"
| "master_calls tr ((c, x) # cs) m = master_calls tr cs (apply_drives (call_drives m tr c x) m)"

section \<open>Concrete inputs\<close>

text \<open>
  An idle bus; a write beat of value \<open>0x11223344\<close> with strobe text \<open>0101\<close> whose address
  and data are valid in the same cycle; a write address alone.
\<close>

definition idle_bus :: bus where
  "idle_bus = (\<lambda>_. 0)"

definition respond_in :: lite_in where
  "respond_in = \<lparr>sampled = idle_bus(BREADY := 1), wstrb_str = ''0000''\<rparr>"

definition beat_0101 :: "nat \<Rightarrow> lite_in" where
  "beat_0101 a =
     \<lparr>sampled = idle_bus(AWVALID := 1, AWADDR := a, WVALID := 1, WDATA := 0x11223344, BREADY := 1),
      wstrb_str = ''0101''\<rparr>"

definition address_only :: "nat \<Rightarrow> lite_in" where
  "address_only a = \<lparr>sampled = idle_bus(AWVALID := 1, AWADDR := a, BREADY := 1), wstrb_str = ''0000''\<rparr>"

text \<open>A slave of 32 bits over eight bytes of memory, little endian, as its constructor leaves it.\<close>

definition slave8 :: lite_slave where
  "slave8 =
     \<lparr> big_endian = False, memory = [0, 0, 0, 0, 0xAA, 0xBB, 0xCC, 0xDD], data_width = 32,
        bytes_per_beat = 4, bresp = 0, rresp = 0, awaddr = None, awprot = None,
        drv = idle_bus(AWREADY := 1, WREADY := 1, BVALID := 0, ARREADY := 1, RVALID := 0),
        wa = WA_442, wd = WD_467, rd = RD_524 \<rparr>"

text \<open>The read burst of eight beats of four bytes from address \<open>0x1000\<close>.\<close>

definition burst8 :: burst_req where
  "burst8 = \<lparr>ax_addr = 0x1000, ax_len = 7, ax_size = 2, ax_burst = 1, ax_prot = 0\<rparr>"

text \<open>The slice a pass of the read loop loaded, if it loaded one.\<close>

fun beat_range :: "rd_pass \<Rightarrow> (nat \<times> nat) option" where
  "beat_range (Beat st en bs l) = Some (st, en)"
| "beat_range Idle = None"

text \<open>
  A bus on which the slave is ready on every address and data channel; a bus carrying a
  write response \<open>SLVERR\<close> and a read response \<open>OKAY\<close> with data; a master as its
  constructor leaves it.
\<close>

definition ready_bus :: bus where
  "ready_bus = idle_bus(AWREADY := 1, WREADY := 1, ARREADY := 1)"

definition response_bus :: bus where
  "response_bus = idle_bus(BVALID := 1, BRESP := 2, RVALID := 1, RRESP := 0, RDATA := 0xCAFE)"

definition master0 :: master where
  "master0 = master_init \<lparr>m_bus = idle_bus, m_width = (\<lambda>_. 32)\<rparr>"

text \<open>
  The trace of three cycles in which the slave is ready twice and then answers; a master
  before its constructor has driven the bus.
\<close>

definition bus3 :: "bus list" where
  "bus3 = [ready_bus, ready_bus, response_bus]"

definition raw_master :: master where
  "raw_master = \<lparr>m_bus = idle_bus, m_width = (\<lambda>_. 32)\<rparr>"

section \<open>Properties\<close>

subsection \<open>AXI4-Lite slave\<close>

text \<open>The slave \<open>slave8\<close> is what the constructor builds.\<close>

lemma slave8_init: "lite_slave_init 32 [0, 0, 0, 0, 0xAA, 0xBB, 0xCC, 0xDD] False idle_bus = Inr slave8"
  by (simp add: lite_slave_init_def slave8_def)

lemma take_Suc_update: "k < length xs \<Longrightarrow> take (Suc k) (xs[k := v]) = take k xs @ [v]"
  by (simp add: take_Suc_conv_app_nth)

text \<open>
  The strobe loop writes every byte of the beat, whatever the characters of the strobe
  text are, as long as the text is long enough and the bytes lie within the memory.
\<close>

lemma strobe_write_all:
  "idx + length data \<le> length wstrb \<Longrightarrow> a + idx + length data \<le> length mem \<Longrightarrow>
   strobe_write mem a wstrb idx data =
     (take (a + idx) mem @ data @ drop (a + idx + length data) mem, None)"
proof (induction data arbitrary: mem idx)
  case Nil
  then show ?case by simp
next
  case (Cons v rest)
  have g: "py_getitem wstrb idx = Inr (wstrb ! idx)"
    using Cons.prems(1) by (simp add: py_getitem_def)
  have s: "py_setitem mem (a + idx) v = Inr (mem[a + idx := v])"
    using Cons.prems(2) by (simp add: py_setitem_def)
  have ih: "strobe_write (mem[a + idx := v]) a wstrb (Suc idx) rest =
      (take (a + Suc idx) (mem[a + idx := v]) @ rest @
        drop (a + Suc idx + length rest) (mem[a + idx := v]), None)"
    using Cons.prems by (intro Cons.IH) simp_all
  have t: "take (a + Suc idx) (mem[a + idx := v]) = take (a + idx) mem @ [v]"
    using Cons.prems(2) take_Suc_update [of "a + idx" mem v] by simp
  have d: "drop (a + Suc idx + length rest) (mem[a + idx := v]) =
      drop (a + idx + length (v # rest)) mem"
    by simp
  show ?case
    by (simp only: strobe_write.simps g s sum.case py_bool_str_def ih t d) simp
qed

declare strobe_write.simps [simp del]

lemma strobe_0101_at0:
  "strobe_write [0xAA, 0xBB, 0xCC, 0xDD] 0 ''0101'' 0 [0x44, 0x33, 0x22, 0x11]
     = ([0x44, 0x33, 0x22, 0x11], None)"
  by (simp add: strobe_write_all)

lemma strobe_0101_at4:
  "strobe_write [0, 0, 0, 0, 0xAA, 0xBB, 0xCC, 0xDD] 4 ''0101'' 0 [0x44, 0x33, 0x22, 0x11]
     = ([0, 0, 0, 0, 0x44, 0x33, 0x22, 0x11], None)"
  by (simp add: strobe_write_all)

lemma upt_0_4: "[0..<4] = [0, 1, 2, 3::nat]"
  by (simp add: upt_rec)

lemma pack_11223344: "struct_pack False 4 0x11223344 = Inr [0x44, 0x33, 0x22, 0x11]"
  by (simp add: struct_pack_def le_bytes_def upt_0_4)

lemmas lite_edge_defs =
  lite_run_def lite_edge_def write_address_def write_data_def read_data_def
  wd_await_address_def wa_wait_def wa_loop_head_def wd_loop_head_def rd_loop_head_def
  py_truth_def name_bound_def amba_globals_def
  beat_0101_def respond_in_def address_only_def slave8_def idle_bus_def

lemma write_address_frame:
  "memory (write_address i s) = memory s \<and> wd (write_address i s) = wd s \<and>
   drv (write_address i s) BVALID = drv s BVALID \<and> drv (write_address i s) BRESP = drv s BRESP"
  by (simp add: write_address_def wa_wait_def wa_loop_head_def split: wa_pc.splits)

lemma read_data_frame:
  "memory (read_data g i s) = memory s \<and> wd (read_data g i s) = wd s \<and>
   drv (read_data g i s) BVALID = drv s BVALID \<and> drv (read_data g i s) BRESP = drv s BRESP"
proof (cases "rd s")
  case RD_524
  show ?thesis
  proof (cases "struct_unpack (big_endian s) (if bytes_per_beat s = 4 then 4 else 8)
                  (py_slice (memory s) (sampled i ARADDR) (sampled i ARADDR + bytes_per_beat s))")
    case (Inl e)
    with RD_524 show ?thesis by (simp add: read_data_def rd_loop_head_def Let_def)
  next
    case (Inr v)
    with RD_524 show ?thesis by (simp add: read_data_def rd_loop_head_def Let_def)
  qed
next
  case RD_543
  then show ?thesis by (simp add: read_data_def rd_loop_head_def)
next
  case (RD_raised e)
  then show ?thesis by (simp add: read_data_def)
qed

lemma write_data_raised: "wd s = WD_raised e \<Longrightarrow> write_data g i s = s"
  by (simp add: write_data_def)

lemma lite_edge_raised:
  assumes "wd s = WD_raised e"
  shows "wd (lite_edge g s i) = WD_raised e \<and> drv (lite_edge g s i) BVALID = drv s BVALID \<and>
         drv (lite_edge g s i) BRESP = drv s BRESP \<and> memory (lite_edge g s i) = memory s"
proof -
  have "wd (write_address i s) = WD_raised e"
    using assms write_address_frame [of i s] by simp
  then have "write_data g i (write_address i s) = write_address i s"
    by (rule write_data_raised)
  then show ?thesis
    using assms write_address_frame [of i s] read_data_frame [of g i "write_address i s"]
    by (simp add: lite_edge_def)
qed

lemma lite_run_raised:
  "wd s = WD_raised e \<Longrightarrow>
   wd (lite_run g is s) = WD_raised e \<and> drv (lite_run g is s) BVALID = drv s BVALID \<and>
   drv (lite_run g is s) BRESP = drv s BRESP \<and> memory (lite_run g is s) = memory s"
proof (induction "is" arbitrary: s)
  case Nil
  then show ?case by (simp add: lite_run_def)
next
  case (Cons i "is")
  have step: "lite_run g (i # is) s = lite_run g is (lite_edge g s i)"
    by (simp add: lite_run_def)
  from Cons.prems lite_edge_raised [of s e g i] Cons.IH [of "lite_edge g s i"]
  show ?case by (simp add: step)
qed

lemma lite_run_append: "lite_run g (xs @ ys) s = lite_run g ys (lite_run g xs s)"
  by (simp add: lite_run_def)

text \<open>
  Claim C1 (strobe masking in the write path of the AXI4-Lite slave). A beat of value
  \<open>0x11223344\<close> with strobe \<open>0b0101\<close> is written over the prior content
  \<open>AA BB CC DD\<close>. The loop of lines 491 to 493 tests \<^verbatim>\<open>bool(_wstrb[idx])\<close>, which is
  true for the character 0 as for the character 1: run on its own it overwrites all four
  bytes, bytes 1 and 3 included, and so does the coroutine in a namespace that binds
  \<^verbatim>\<open>struct\<close>. In the module as written \<^verbatim>\<open>struct\<close> is not imported: the coroutine
  ends with \<^verbatim>\<open>NameError\<close> at line 488 and no byte of the memory is written, bytes 0
  and 2 included.
\<close>

theorem lite_strobe_0101_writes_every_byte:
  "strobe_write [0xAA, 0xBB, 0xCC, 0xDD] 0 ''0101'' 0 [0x44, 0x33, 0x22, 0x11]
     = ([0x44, 0x33, 0x22, 0x11], None)
   \<and> memory (lite_run (''struct'' # amba_globals) [beat_0101 4, respond_in] slave8)
     = [0, 0, 0, 0, 0x44, 0x33, 0x22, 0x11]
   \<and> wd (lite_run amba_globals [beat_0101 4, respond_in] slave8) = WD_raised NameError
   \<and> memory (lite_run amba_globals [beat_0101 4, respond_in] slave8)
     = [0, 0, 0, 0, 0xAA, 0xBB, 0xCC, 0xDD]"
proof -
  have a: "strobe_write [0xAA, 0xBB, 0xCC, 0xDD] 0 ''0101'' 0 [0x44, 0x33, 0x22, 0x11]
     = ([0x44, 0x33, 0x22, 0x11], None)"
    by (rule strobe_0101_at0)
  have b: "memory (lite_run (''struct'' # amba_globals) [beat_0101 4, respond_in] slave8)
     = [0, 0, 0, 0, 0x44, 0x33, 0x22, 0x11]"
    by (simp add: lite_edge_defs pack_11223344 strobe_0101_at4)
  have c: "wd (lite_run amba_globals [beat_0101 4, respond_in] slave8) = WD_raised NameError"
    by (simp add: lite_edge_defs)
  have d: "memory (lite_run amba_globals [beat_0101 4, respond_in] slave8)
     = [0, 0, 0, 0, 0xAA, 0xBB, 0xCC, 0xDD]"
    by (simp add: lite_edge_defs)
  from a b c d show ?thesis by (intro conjI)
qed

text \<open>
  Claim C4 (one outstanding write in the AXI4-Lite slave). A write address 0 is latched
  and no write data ever arrives. The test \<^verbatim>\<open>while self._awaddr:\<close> of line 454 is false
  for the address 0, so after one more edge the address coroutine drives \<^verbatim>\<open>AWREADY\<close>
  high again, although the latch still holds 0, no response was driven
  (\<^verbatim>\<open>BVALID\<close> is 0) and the data coroutine is idle; at the next edge it accepts the
  address 16 and overwrites the latch.
\<close>

theorem lite_address_zero_accepts_second_address:
  "awaddr (lite_run amba_globals [address_only 0, address_only 16] slave8) = Some 0
   \<and> wd (lite_run amba_globals [address_only 0, address_only 16] slave8) = WD_467
   \<and> drv (lite_run amba_globals [address_only 0, address_only 16] slave8) BVALID = 0
   \<and> drv (lite_run amba_globals [address_only 0, address_only 16] slave8) AWREADY = 1
   \<and> awaddr (lite_run amba_globals [address_only 0, address_only 16, address_only 16] slave8)
     = Some 16"
proof -
  have a: "awaddr (lite_run amba_globals [address_only 0, address_only 16] slave8) = Some 0"
    by (simp add: lite_edge_defs)
  have b: "wd (lite_run amba_globals [address_only 0, address_only 16] slave8) = WD_467"
    by (simp add: lite_edge_defs)
  have c: "drv (lite_run amba_globals [address_only 0, address_only 16] slave8) BVALID = 0"
    by (simp add: lite_edge_defs)
  have d: "drv (lite_run amba_globals [address_only 0, address_only 16] slave8) AWREADY = 1"
    by (simp add: lite_edge_defs)
  have e: "awaddr (lite_run amba_globals [address_only 0, address_only 16, address_only 16] slave8)
     = Some 16"
    by (simp add: lite_edge_defs)
  from a b c d e show ?thesis by (intro conjI)
qed

lemma lite_address_nonzero_holds_second_address:
  "awaddr (lite_run amba_globals [address_only 8, address_only 16, address_only 16] slave8) = Some 8
   \<and> drv (lite_run amba_globals [address_only 8, address_only 16, address_only 16] slave8) AWREADY = 0
   \<and> wa (lite_run amba_globals [address_only 8, address_only 16, address_only 16] slave8) = WA_456"
  by (simp add: lite_edge_defs)

lemma write_address_waits_while_latched:
  "wa s = WA_450 \<or> wa s = WA_456 \<Longrightarrow> awaddr s = Some a \<Longrightarrow> a \<noteq> 0 \<Longrightarrow>
   write_address i s = s\<lparr>wa := WA_456\<rparr>"
  by (auto simp: write_address_def wa_wait_def py_truth_def)

lemma write_address_zero_reopens:
  "wa s = WA_450 \<Longrightarrow> awaddr s = Some 0 \<Longrightarrow>
   write_address i s = s\<lparr>drv := (drv s)(AWREADY := 1), wa := WA_442\<rparr>"
  by (simp add: write_address_def wa_wait_def wa_loop_head_def py_truth_def)

text \<open>
  Claim C5 (the configured write response reaches the bus). After
  \<^verbatim>\<open>setWrResponse(2)\<close> the response code of the slave is 2. A write beat then makes the
  data coroutine end with \<^verbatim>\<open>NameError\<close> at line 488, before lines 496 and 497: whatever
  is sampled later, \<^verbatim>\<open>BVALID\<close> stays 0 and \<^verbatim>\<open>BRESP\<close> is never driven, so the write of
  a master never sees a response.
\<close>

theorem lite_slverr_write_never_responds:
  "snd (setWrResponse slave8 2) = None
   \<and> bresp (fst (setWrResponse slave8 2)) = 2
   \<and> wd (lite_run amba_globals (beat_0101 4 # respond_in # later) (fst (setWrResponse slave8 2)))
     = WD_raised NameError
   \<and> drv (lite_run amba_globals (beat_0101 4 # respond_in # later) (fst (setWrResponse slave8 2))) BVALID
     = 0
   \<and> drv (lite_run amba_globals (beat_0101 4 # respond_in # later) (fst (setWrResponse slave8 2))) BRESP
     = 0"
proof -
  let ?s = "fst (setWrResponse slave8 2)"
  let ?t = "lite_run amba_globals [beat_0101 4, respond_in] ?s"
  have split: "lite_run amba_globals (beat_0101 4 # respond_in # later) ?s = lite_run amba_globals later ?t"
    using lite_run_append [of amba_globals "[beat_0101 4, respond_in]" later ?s] by simp
  have r: "wd ?t = WD_raised NameError"
    by (simp add: setWrResponse_def lite_edge_defs)
  have v: "drv ?t BVALID = 0"
    by (simp add: setWrResponse_def lite_edge_defs)
  have p: "drv ?t BRESP = 0"
    by (simp add: setWrResponse_def lite_edge_defs)
  have a: "snd (setWrResponse slave8 2) = None" "bresp ?s = 2"
    by (simp_all add: setWrResponse_def)
  from lite_run_raised [OF r, of amba_globals later] v p a show ?thesis
    by (simp add: split)
qed

lemma lite_slverr_with_struct_bound:
  "drv (lite_run (''struct'' # amba_globals) [beat_0101 4, respond_in] (fst (setWrResponse slave8 2))) BRESP = 2
   \<and> drv (lite_run (''struct'' # amba_globals) [beat_0101 4, respond_in] (fst (setWrResponse slave8 2))) BVALID = 1"
  by (simp add: setWrResponse_def lite_edge_defs pack_11223344 strobe_0101_at4)

text \<open>
  Claim C6 (validation of the configuration). \<^verbatim>\<open>setWrResponse\<close> and
  \<^verbatim>\<open>setRdResponse\<close> store the code and raise nothing exactly when the code is one of
  0, 1, 2, 3; otherwise they raise \<^verbatim>\<open>ValueError\<close> and leave the slave as it was. The
  constructor raises \<^verbatim>\<open>ValueError\<close> exactly when the data width is neither 32 nor 64,
  and builds a slave otherwise.
\<close>

theorem response_code_and_width_validation:
  "setWrResponse s code
     = (if code \<in> {0, 1, 2, 3} then (s\<lparr>bresp := code\<rparr>, None) else (s, Some ValueError))
   \<and> setRdResponse s code
     = (if code \<in> {0, 1, 2, 3} then (s\<lparr>rresp := code\<rparr>, None) else (s, Some ValueError))
   \<and> (lite_slave_init width mem big b = Inl ValueError) = (width \<noteq> 32 \<and> width \<noteq> 64)
   \<and> (\<exists>s0. lite_slave_init width mem big b = Inr s0) = (width = 32 \<or> width = 64)"
proof -
  have r: "(0 \<le> code \<and> code < 4) = (code \<in> {0, 1, 2, 3})"
    by auto
  show ?thesis
    by (simp add: setWrResponse_def setRdResponse_def lite_slave_init_def r del: insert_iff)
qed

subsection \<open>AXI4 slave with bursts\<close>

lemma size_to_bytes_cases:
  "size_to_bytes_in_beat n = (if n < 7 then Some (2 ^ n) else None)"
  by (simp add: size_to_bytes_in_beat_def)

text \<open>
  Claim C7 (burst geometry). For every latched request the burst length is
  \<open>AxLEN + 1\<close>, and the bytes of a beat are \<open>2 ^ AxSIZE\<close> whenever \<open>AxSIZE < 7\<close>;
  the write and the read coroutine then raise nothing on account of the geometry. From
  size 7 on the helper gives no beat width (\<^verbatim>\<open>None\<close>), and both coroutines raise at
  the product \<^verbatim>\<open>bytes_in_beat*8\<close> of lines 292 and 341 (a \<^verbatim>\<open>TypeError\<close>): the
  size is refused with an exception, it is never clamped to a width.
\<close>

theorem burst_geometry_by_size:
  "size_to_bytes_in_beat (ax_size r) = (if ax_size r < 7 then Some (2 ^ ax_size r) else None)
   \<and> burst_geometry r
       = (if ax_size r < 7 then Inr (ax_len r + 1, 2 ^ ax_size r) else Inl TypeError)
   \<and> fst (snd (axi4_write_burst s r ws)) = (if ax_size r < 7 then None else Some TypeError)
   \<and> fst (snd (axi4_read_burst s r rs)) = (if ax_size r < 7 then None else Some TypeError)"
  by (simp add: burst_geometry_def size_to_bytes_in_beat_def axi4_write_burst_def
      axi4_read_burst_def split: prod.splits)

text \<open>The burst that raises has accessed no slice and leaves the slave as it was.\<close>

lemma burst_undefined_size_leaves_slave:
  "axi4_write_burst s (r\<lparr>ax_size := 7 + k\<rparr>) ws = (s, Some TypeError, [], 0)
   \<and> axi4_read_burst s (r\<lparr>ax_size := 7 + k\<rparr>) rs = (s, Some TypeError, [])"
  by (simp add: burst_geometry_def size_to_bytes_in_beat_def axi4_write_burst_def
      axi4_read_burst_def)

lemma burst8_geometry: "burst_geometry burst8 = Inr (8, 4)"
  by (simp add: burst_geometry_def size_to_bytes_in_beat_def burst8_def)

lemma burst8_addr: "ax_addr burst8 = 0x1000"
  by (simp add: burst8_def)

text \<open>
  With \<^verbatim>\<open>RREADY\<close> high in all eight passes the read burst loads the eight slices in
  order, and drives \<^verbatim>\<open>RLAST\<close> high in the eighth pass only.
\<close>

lemma read_burst_all_ready:
  "map beat_range (snd (snd (axi4_read_burst s burst8 ([1, 1, 1, 1, 1, 1, 1, 1] @ later))))
     = [Some (0x1000, 0x1004), Some (0x1004, 0x1008), Some (0x1008, 0x100C),
        Some (0x100C, 0x1010), Some (0x1010, 0x1014), Some (0x1014, 0x1018),
        Some (0x1018, 0x101C), Some (0x101C, 0x1020)]
   \<and> map rlast (snd (snd (axi4_read_burst s burst8 ([1, 1, 1, 1, 1, 1, 1, 1] @ later))))
     = [False, False, False, False, False, False, False, True]"
  by (simp add: axi4_read_burst_def burst8_geometry burst8_addr Let_def)

text \<open>
  Claim C3 (burst addressing and the last beat marker). In the read burst of eight beats
  of four bytes from \<open>0x1000\<close>, \<^verbatim>\<open>RREADY\<close> is sampled high in the first seven passes
  of the loop and low in the eighth. The loop counts the pass all the same (line 368 is
  outside the test of line 359): the burst ends after eight passes without raising,
  the slice \<open>[0x101C, 0x1020)\<close> is never loaded and \<^verbatim>\<open>RLAST\<close> is never driven high.
\<close>

theorem read_burst_rready_low_on_last_pass:
  "fst (snd (axi4_read_burst s burst8 ([1, 1, 1, 1, 1, 1, 1, 0] @ later))) = None
   \<and> map beat_range (snd (snd (axi4_read_burst s burst8 ([1, 1, 1, 1, 1, 1, 1, 0] @ later))))
     = [Some (0x1000, 0x1004), Some (0x1004, 0x1008), Some (0x1008, 0x100C),
        Some (0x100C, 0x1010), Some (0x1010, 0x1014), Some (0x1014, 0x1018),
        Some (0x1018, 0x101C), None]
   \<and> map rlast (snd (snd (axi4_read_burst s burst8 ([1, 1, 1, 1, 1, 1, 1, 0] @ later))))
     = [False, False, False, False, False, False, False, False]"
  by (simp add: axi4_read_burst_def burst8_geometry burst8_addr Let_def)

text \<open>
  The write loop assigns the slice of beat \<open>k\<close> at \<open>[a + k * b, a + (k + 1) * b)\<close>, the
  beats in order; a burst that completes has assigned the slices of all its beats.
\<close>

lemma write_loop_ranges:
  "0 < c \<Longrightarrow> c \<le> L \<Longrightarrow> write_loop mem a L b c ws = (m, rs, c') \<Longrightarrow>
   c' \<le> c \<and> rs = map (\<lambda>k. (a + k * b, a + (k + 1) * b)) [L - c ..< L - c']"
proof (induction ws arbitrary: mem c m rs c')
  case Nil
  then show ?case by simp
next
  case (Cons w ws)
  show ?case
  proof (cases "w_valid w \<noteq> 0")
    case False
    with Cons.prems have "write_loop mem a L b c ws = (m, rs, c')" by simp
    with Cons.IH Cons.prems(1,2) show ?thesis by blast
  next
    case True
    let ?st = "a + (L - c) * b"
    let ?en = "a + (L - c + 1) * b"
    let ?mem = "py_slice_assign mem ?st ?en (w_buff w)"
    show ?thesis
    proof (cases "c - 1 = 0")
      case last: True
      with True Cons.prems have r: "rs = [(?st, ?en)]" "c' = 0" "m = ?mem"
        by (simp_all add: Let_def)
      from last Cons.prems(1) have c1: "c = 1" by simp
      from c1 Cons.prems(2) have "[L - c ..< L - 0] = [L - 1]"
        by (simp add: upt_rec)
      with r c1 show ?thesis by simp
    next
      case more: False
      obtain m1 rs1 c1 where rec: "write_loop ?mem a L b (c - 1) ws = (m1, rs1, c1)"
        by (cases "write_loop ?mem a L b (c - 1) ws") auto
      with True more Cons.prems(3) have r: "rs = (?st, ?en) # rs1" "c' = c1" "m = m1"
        by (simp_all add: Let_def)
      from more Cons.prems have "0 < c - 1" "c - 1 \<le> L" by simp_all
      from Cons.IH [OF this rec]
      have ih: "c1 \<le> c - 1" "rs1 = map (\<lambda>k. (a + k * b, a + (k + 1) * b)) [L - (c - 1) ..< L - c1]"
        by simp_all
      from more Cons.prems(1,2) ih(1) have lt: "L - c < L - c1" by simp
      from more Cons.prems(1,2) have suc: "L - (c - 1) = Suc (L - c)" by simp
      have "[L - c ..< L - c1] = (L - c) # [Suc (L - c) ..< L - c1]"
        using lt by (rule upt_conv_Cons)
      with r ih suc Cons.prems(2) show ?thesis by (simp add: Suc_diff_le)
    qed
  qed
qed

lemma write_burst_complete_ranges:
  assumes "axi4_write_burst s r ws = (s', None, rs, 0)"
  shows "rs = map (\<lambda>k. (ax_addr r + k * 2 ^ ax_size r, ax_addr r + (k + 1) * 2 ^ ax_size r))
               [0 ..< ax_len r + 1]"
proof -
  from assms obtain L b where g: "burst_geometry r = Inr (L, b)"
    by (cases "burst_geometry r") (auto simp: axi4_write_burst_def)
  then have Lb: "L = ax_len r + 1" "b = 2 ^ ax_size r"
    by (auto simp: burst_geometry_def size_to_bytes_in_beat_def Let_def split: if_splits)
  from assms g obtain m where w: "write_loop (a4_memory s) (ax_addr r) L b L ws = (m, rs, 0)"
    by (cases "write_loop (a4_memory s) (ax_addr r) L b L ws") (auto simp: axi4_write_burst_def)
  from Lb have "0 < L" "L \<le> L" by simp_all
  from write_loop_ranges [OF this w] Lb show ?thesis by simp
qed

lemma read_steps_frame: "memory (foldl (\<lambda>t i. read_data g i t) t is) = memory t"
  by (induction "is" arbitrary: t) (simp_all add: read_data_frame)

text \<open>
  Claim C10 (reads leave the memory alone). A read burst of the AXI4 slave returns the
  slave with its memory unchanged, whatever the request and the samples of \<^verbatim>\<open>RREADY\<close>;
  resuming the read coroutine of the AXI4-Lite slave leaves the memory unchanged, for
  one rising edge and for any run of them, in every namespace.
\<close>

theorem reads_leave_memory_unchanged:
  "a4_memory (fst (axi4_read_burst s r rreadys)) = a4_memory s
   \<and> memory (read_data g i t) = memory t
   \<and> memory (foldl (\<lambda>t i. read_data g i t) t is) = memory t"
proof -
  have "a4_memory (fst (axi4_read_burst s r rreadys)) = a4_memory s"
    by (cases "burst_geometry r") (auto simp: axi4_read_burst_def)
  then show ?thesis
    by (simp add: read_data_frame read_steps_frame)
qed

text \<open>
  The read loop makes one pass for each beat of the burst, whether \<^verbatim>\<open>RREADY\<close> is high
  or not; pass \<open>j\<close> loads the slice of beat \<open>j\<close> when \<^verbatim>\<open>RREADY\<close> is high, and
  \<^verbatim>\<open>RLAST\<close> is driven high in the last pass alone, and only when \<^verbatim>\<open>RREADY\<close> is high
  there.
\<close>

lemma read_loop_length:
  "0 < c \<Longrightarrow> length (read_loop mem a L b c rs) = min c (length rs)"
proof (induction rs arbitrary: c)
  case Nil
  then show ?case by simp
next
  case (Cons r rs)
  show ?case
  proof (cases "c - 1 = 0")
    case True
    with Cons.prems show ?thesis by (simp add: Let_def)
  next
    case False
    then have "0 < c - 1" by simp
    from Cons.IH [OF this] False Cons.prems show ?thesis by (simp add: Let_def)
  qed
qed

lemma read_loop_nth:
  "0 < c \<Longrightarrow> c \<le> L \<Longrightarrow> j < min c (length rs) \<Longrightarrow>
   read_loop mem a L b c rs ! j =
     (if rs ! j \<noteq> 0
      then Beat (a + (L - c + j) * b) (a + (L - c + j + 1) * b)
             (py_slice mem (a + (L - c + j) * b) (a + (L - c + j + 1) * b)) (c = Suc j)
      else Idle)"
proof (induction rs arbitrary: c j)
  case Nil
  then show ?case by simp
next
  case (Cons r rs)
  show ?case
  proof (cases j)
    case 0
    then show ?thesis by (auto simp: Let_def)
  next
    case (Suc i)
    with Cons.prems have c2: "c - 1 \<noteq> 0" "0 < c - 1" "c - 1 \<le> L" "i < min (c - 1) (length rs)"
      by auto
    from Cons.prems Suc have idx: "L - (c - 1) + i = L - c + Suc i" by simp
    from Cons.prems Suc have fl: "(c - 1 = Suc i) = (c = Suc (Suc i))" by auto
    from Cons.IH [OF c2(2,3,4), unfolded idx fl] c2(1) Suc show ?thesis
      by (simp add: Let_def)
  qed
qed

lemma rlast_only_on_final_ready_pass:
  assumes "0 < c" "c \<le> L" "j < min c (length rs)"
  shows "rlast (read_loop mem a L b c rs ! j) = (Suc j = c \<and> rs ! j \<noteq> 0)"
  using read_loop_nth [OF assms, of mem a b] by auto

subsection \<open>AXI4-Lite master\<close>

text \<open>
  The waiting loop ends in the first cycle, from the one it is entered in, whose sample
  satisfies the test.
\<close>

lemma first_from_SomeD:
  "first_from P xs c = Some (k, b) \<Longrightarrow>
   c \<le> k \<and> k - c < length xs \<and> b = xs ! (k - c) \<and> P b \<and> (\<forall>j < k - c. \<not> P (xs ! j))"
proof (induction xs arbitrary: c)
  case Nil
  then show ?case by simp
next
  case (Cons x xs)
  show ?case
  proof (cases "P x")
    case True
    with Cons.prems show ?thesis by simp
  next
    case False
    with Cons.prems have "first_from P xs (Suc c) = Some (k, b)" by simp
    from Cons.IH [OF this]
    have ih: "Suc c \<le> k" "k - Suc c < length xs" "b = xs ! (k - Suc c)" "P b"
      "\<forall>j < k - Suc c. \<not> P (xs ! j)"
      by blast+
    from ih(1) have kc: "k - c = Suc (k - Suc c)" by simp
    have "\<not> P ((x # xs) ! j)" if "j < k - c" for j
      using that False ih(5) kc by (cases j) simp_all
    with ih kc show ?thesis by simp
  qed
qed

lemma first_sample_SomeD:
  assumes "first_sample P tr c = Some (k, b)"
  shows "c \<le> k \<and> k < length tr \<and> b = tr ! k \<and> P b \<and> (\<forall>j. c \<le> j \<and> j < k \<longrightarrow> \<not> P (tr ! j))"
proof -
  from assms have "first_from P (drop c tr) c = Some (k, b)"
    by (simp add: first_sample_def)
  from first_from_SomeD [OF this]
  have f: "c \<le> k" "k - c < length (drop c tr)" "b = drop c tr ! (k - c)" "P b"
    "\<forall>j < k - c. \<not> P (drop c tr ! j)"
    by blast+
  from f(1,2) have k: "k < length tr" by simp
  from f(1,3) k have b: "b = tr ! k" by simp
  have "\<not> P (tr ! j)" if "c \<le> j" "j < k" for j
  proof -
    from that have "j - c < k - c" by simp
    with f(5) have "\<not> P (drop c tr ! (j - c))" by blast
    with that k show ?thesis by simp
  qed
  with f(1,4) k b show ?thesis by blast
qed

text \<open>
  Conversely, the loop finds the first cycle whose sample satisfies the test whenever
  the trace has one, and is still waiting at the end of the trace exactly when it has
  none.
\<close>

lemma first_from_complete:
  "n < length xs \<Longrightarrow> P (xs ! n) \<Longrightarrow> (\<forall>j < n. \<not> P (xs ! j)) \<Longrightarrow>
   first_from P xs c = Some (c + n, xs ! n)"
proof (induction xs arbitrary: c n)
  case Nil
  then show ?case by simp
next
  case (Cons x xs)
  show ?case
  proof (cases n)
    case 0
    with Cons.prems show ?thesis by simp
  next
    case (Suc i)
    with Cons.prems have x: "\<not> P x" by auto
    from Suc Cons.prems have i: "i < length xs" "P (xs ! i)" by simp_all
    have "\<not> P (xs ! j)" if "j < i" for j
      using that Suc Cons.prems(3) by (auto dest: spec [of _ "Suc j"])
    with Cons.IH [OF i, of "Suc c"] have "first_from P xs (Suc c) = Some (Suc c + i, xs ! i)"
      by blast
    with x Suc show ?thesis by simp
  qed
qed

lemma first_sample_iff:
  "(first_sample P tr c = Some (k, b)) = (first_cycle P tr c k \<and> b = tr ! k)"
proof
  assume "first_sample P tr c = Some (k, b)"
  from first_sample_SomeD [OF this] show "first_cycle P tr c k \<and> b = tr ! k"
    by blast
next
  assume r: "first_cycle P tr c k \<and> b = tr ! k"
  then have n: "k - c < length (drop c tr)" by auto
  from r have p: "P (drop c tr ! (k - c))" by simp
  have "\<not> P (drop c tr ! j)" if "j < k - c" for j
  proof -
    from that r have "c \<le> c + j" "c + j < k" by simp_all
    with r have "\<not> P (tr ! (c + j))" by blast
    with that r show ?thesis by simp
  qed
  then have q: "\<forall>j < k - c. \<not> P (drop c tr ! j)" by blast
  from first_from_complete [of "k - c" "drop c tr" P c, OF n p q] r
  show "first_sample P tr c = Some (k, b)"
    by (simp add: first_sample_def)
qed

lemma first_from_None_iff: "(first_from P xs c = None) = (\<forall>i < length xs. \<not> P (xs ! i))"
proof (induction xs arbitrary: c)
  case Nil
  then show ?case by simp
next
  case (Cons x xs)
  have "(\<forall>i < length (x # xs). \<not> P ((x # xs) ! i)) = (\<not> P x \<and> (\<forall>i < length xs. \<not> P (xs ! i)))"
    by (auto simp: less_Suc_eq_0_disj)
  with Cons.IH [of "Suc c"] show ?case by simp
qed

lemma first_sample_None_iff:
  "(first_sample P tr c = None) = (\<forall>j. c \<le> j \<and> j < length tr \<longrightarrow> \<not> P (tr ! j))"
proof -
  have "(\<forall>i < length (drop c tr). \<not> P (drop c tr ! i))
      = (\<forall>j. c \<le> j \<and> j < length tr \<longrightarrow> \<not> P (tr ! j))"
  proof
    assume a: "\<forall>i < length (drop c tr). \<not> P (drop c tr ! i)"
    show "\<forall>j. c \<le> j \<and> j < length tr \<longrightarrow> \<not> P (tr ! j)"
    proof (intro allI impI)
      fix j
      assume j: "c \<le> j \<and> j < length tr"
      then have "j - c < length (drop c tr)" by auto
      with a have "\<not> P (drop c tr ! (j - c))" by blast
      with j show "\<not> P (tr ! j)" by simp
    qed
  next
    assume a: "\<forall>j. c \<le> j \<and> j < length tr \<longrightarrow> \<not> P (tr ! j)"
    show "\<forall>i < length (drop c tr). \<not> P (drop c tr ! i)"
    proof (intro allI impI)
      fix i
      assume i: "i < length (drop c tr)"
      then have "c \<le> c + i \<and> c + i < length tr" by auto
      with a have "\<not> P (tr ! (c + i))" by blast
      with i show "\<not> P (drop c tr ! i)" by simp
    qed
  qed
  then show ?thesis
    by (simp add: first_sample_def first_from_None_iff)
qed

lemma master_write_outcome:
  "snd (master_write m tr c address v be al dl sync) =
     (case first_sample (\<lambda>b. b AWREADY \<noteq> 0) tr ((if sync then c + 1 else c) + al) of
        None \<Rightarrow> None
      | Some (ka, ba) \<Rightarrow>
          (case first_sample (\<lambda>b. b WREADY \<noteq> 0) tr ((if sync then c + 1 else c) + dl) of
             None \<Rightarrow> None
           | Some (kd, bd) \<Rightarrow>
               (case first_sample (\<lambda>b. b BVALID \<noteq> 0 \<and> m_bus m BREADY \<noteq> 0) tr
                       (max (ka + 1) (kd + 1)) of
                  None \<Rightarrow> None
                | Some (k, b) \<Rightarrow>
                    Some (if b BRESP \<noteq> 0 then Inl (AXIProtocolError address (b BRESP))
                          else Inr (b BRESP)))))"
  by (simp add: master_write_def send_write_address_def send_write_data_def await_bresp_def
      Let_def split: option.splits)

lemma master_read_outcome:
  "snd (master_read m tr c address sync) =
     (case first_sample (\<lambda>b. b ARREADY \<noteq> 0) tr (if sync then c + 1 else c) of
        None \<Rightarrow> None
      | Some (ka, ba) \<Rightarrow>
          (case first_sample (\<lambda>b. b RVALID \<noteq> 0 \<and> m_bus m RREADY \<noteq> 0) tr (ka + 1) of
             None \<Rightarrow> None
           | Some (k, b) \<Rightarrow>
               Some (if b RRESP \<noteq> 0 then Inl (AXIProtocolError address (b RRESP))
                     else Inr (b RDATA))))"
  by (simp add: master_read_def await_rresp_def Let_def split: option.splits)

lemma master_write_iff:
  "(snd (master_write m tr c address v be al dl sync) = Some out) =
     (\<exists>ka kd k.
        first_cycle (\<lambda>b. b AWREADY \<noteq> 0) tr ((if sync then c + 1 else c) + al) ka \<and>
        first_cycle (\<lambda>b. b WREADY \<noteq> 0) tr ((if sync then c + 1 else c) + dl) kd \<and>
        first_cycle (\<lambda>b. b BVALID \<noteq> 0 \<and> m_bus m BREADY \<noteq> 0) tr (max (ka + 1) (kd + 1)) k \<and>
        out = (if (tr ! k) BRESP \<noteq> 0 then Inl (AXIProtocolError address ((tr ! k) BRESP))
               else Inr ((tr ! k) BRESP)))"
  (is "?L = ?R")
proof
  assume l: ?L
  let ?A = "first_sample (\<lambda>b. b AWREADY \<noteq> 0) tr ((if sync then c + 1 else c) + al)"
  let ?W = "first_sample (\<lambda>b. b WREADY \<noteq> 0) tr ((if sync then c + 1 else c) + dl)"
  from l obtain ka ba where a: "?A = Some (ka, ba)"
    by (cases ?A) (auto simp: master_write_outcome)
  from l a obtain kd bd where w: "?W = Some (kd, bd)"
    by (cases ?W) (auto simp: master_write_outcome)
  let ?B = "first_sample (\<lambda>b. b BVALID \<noteq> 0 \<and> m_bus m BREADY \<noteq> 0) tr (max (ka + 1) (kd + 1))"
  from l a w obtain k b where b: "?B = Some (k, b)"
    by (cases ?B) (auto simp: master_write_outcome)
  from l a w b have o: "out = (if b BRESP \<noteq> 0 then Inl (AXIProtocolError address (b BRESP))
      else Inr (b BRESP))"
    by (simp add: master_write_outcome)
  from a w b o show ?R
    unfolding first_sample_iff by blast
next
  assume ?R
  then obtain ka kd k where
    a: "first_cycle (\<lambda>b. b AWREADY \<noteq> 0) tr ((if sync then c + 1 else c) + al) ka"
    and w: "first_cycle (\<lambda>b. b WREADY \<noteq> 0) tr ((if sync then c + 1 else c) + dl) kd"
    and b: "first_cycle (\<lambda>b. b BVALID \<noteq> 0 \<and> m_bus m BREADY \<noteq> 0) tr (max (ka + 1) (kd + 1)) k"
    and o: "out = (if (tr ! k) BRESP \<noteq> 0 then Inl (AXIProtocolError address ((tr ! k) BRESP))
               else Inr ((tr ! k) BRESP))"
    by blast
  from a have a': "first_sample (\<lambda>b. b AWREADY \<noteq> 0) tr ((if sync then c + 1 else c) + al)
      = Some (ka, tr ! ka)"
    unfolding first_sample_iff by blast
  from w have w': "first_sample (\<lambda>b. b WREADY \<noteq> 0) tr ((if sync then c + 1 else c) + dl)
      = Some (kd, tr ! kd)"
    unfolding first_sample_iff by blast
  from b have b': "first_sample (\<lambda>b. b BVALID \<noteq> 0 \<and> m_bus m BREADY \<noteq> 0) tr
      (max (ka + 1) (kd + 1)) = Some (k, tr ! k)"
    unfolding first_sample_iff by blast
  show ?L
    by (simp only: master_write_outcome a' w' b' o option.case prod.case)
qed

lemma master_read_iff:
  "(snd (master_read m tr c address sync) = Some out) =
     (\<exists>ka k.
        first_cycle (\<lambda>b. b ARREADY \<noteq> 0) tr (if sync then c + 1 else c) ka \<and>
        first_cycle (\<lambda>b. b RVALID \<noteq> 0 \<and> m_bus m RREADY \<noteq> 0) tr (ka + 1) k \<and>
        out = (if (tr ! k) RRESP \<noteq> 0 then Inl (AXIProtocolError address ((tr ! k) RRESP))
               else Inr ((tr ! k) RDATA)))"
  (is "?L = ?R")
proof
  assume l: ?L
  let ?A = "first_sample (\<lambda>b. b ARREADY \<noteq> 0) tr (if sync then c + 1 else c)"
  from l obtain ka ba where a: "?A = Some (ka, ba)"
    by (cases ?A) (auto simp: master_read_outcome)
  let ?B = "first_sample (\<lambda>b. b RVALID \<noteq> 0 \<and> m_bus m RREADY \<noteq> 0) tr (ka + 1)"
  from l a obtain k b where b: "?B = Some (k, b)"
    by (cases ?B) (auto simp: master_read_outcome)
  from l a b have o: "out = (if b RRESP \<noteq> 0 then Inl (AXIProtocolError address (b RRESP))
      else Inr (b RDATA))"
    by (simp add: master_read_outcome)
  from a b o show ?R
    unfolding first_sample_iff by blast
next
  assume ?R
  then obtain ka k where
    a: "first_cycle (\<lambda>b. b ARREADY \<noteq> 0) tr (if sync then c + 1 else c) ka"
    and b: "first_cycle (\<lambda>b. b RVALID \<noteq> 0 \<and> m_bus m RREADY \<noteq> 0) tr (ka + 1) k"
    and o: "out = (if (tr ! k) RRESP \<noteq> 0 then Inl (AXIProtocolError address ((tr ! k) RRESP))
               else Inr ((tr ! k) RDATA))"
    by blast
  from a have a': "first_sample (\<lambda>b. b ARREADY \<noteq> 0) tr (if sync then c + 1 else c)
      = Some (ka, tr ! ka)"
    unfolding first_sample_iff by blast
  from b have b': "first_sample (\<lambda>b. b RVALID \<noteq> 0 \<and> m_bus m RREADY \<noteq> 0) tr (ka + 1)
      = Some (k, tr ! k)"
    unfolding first_sample_iff by blast
  show ?L
    by (simp only: master_read_outcome a' b' o option.case prod.case)
qed

text \<open>
  Claim C2 (protocol errors of the master). A \<^verbatim>\<open>write\<close> completes with an outcome
  exactly when its address phase and its data phase each meet their first ready cycle
  and the response loop, entered when both phases have ended, meets the first cycle
  \<open>k\<close> in which \<^verbatim>\<open>BVALID\<close> and \<^verbatim>\<open>BREADY\<close> are high; the outcome is then decided by
  the \<^verbatim>\<open>BRESP\<close> sampled in that cycle \<open>k\<close>: \<^verbatim>\<open>AXIProtocolError\<close> with the address and
  the code when the code is not 0, the code returned when it is 0. A \<^verbatim>\<open>read\<close>
  completes exactly when its address phase meets its first ready cycle and the response
  loop meets the first cycle \<open>k\<close> in which \<^verbatim>\<open>RVALID\<close> and \<^verbatim>\<open>RREADY\<close> are high; it
  raises when the \<^verbatim>\<open>RRESP\<close> sampled in cycle \<open>k\<close> is not 0 and returns the
  \<^verbatim>\<open>RDATA\<close> sampled in cycle \<open>k\<close> when it is 0.
\<close>

theorem master_raises_iff_response_nonzero:
  "(snd (master_write m tr c address v be al dl sync) = Some out) =
     (\<exists>ka kd k.
        first_cycle (\<lambda>b. b AWREADY \<noteq> 0) tr ((if sync then c + 1 else c) + al) ka \<and>
        first_cycle (\<lambda>b. b WREADY \<noteq> 0) tr ((if sync then c + 1 else c) + dl) kd \<and>
        first_cycle (\<lambda>b. b BVALID \<noteq> 0 \<and> m_bus m BREADY \<noteq> 0) tr (max (ka + 1) (kd + 1)) k \<and>
        out = (if (tr ! k) BRESP \<noteq> 0 then Inl (AXIProtocolError address ((tr ! k) BRESP))
               else Inr ((tr ! k) BRESP)))
   \<and> (snd (master_read m tr c address sync) = Some out') =
     (\<exists>ka k.
        first_cycle (\<lambda>b. b ARREADY \<noteq> 0) tr (if sync then c + 1 else c) ka \<and>
        first_cycle (\<lambda>b. b RVALID \<noteq> 0 \<and> m_bus m RREADY \<noteq> 0) tr (ka + 1) k \<and>
        out' = (if (tr ! k) RRESP \<noteq> 0 then Inl (AXIProtocolError address ((tr ! k) RRESP))
                else Inr ((tr ! k) RDATA)))"
  by (rule conjI [OF master_write_iff master_read_iff])

lemmas bus3_defs =
  bus3_def ready_bus_def response_bus_def idle_bus_def master0_def master_init_def
  raw_master_def

text \<open>
  Claim C2 at a concrete trace: the slave is ready in cycles 0 and 1 and answers in
  cycle 2 with \<^verbatim>\<open>BRESP\<close> 2 and with \<^verbatim>\<open>RRESP\<close> 0 and data \<open>0xCAFE\<close>. The write raises
  the protocol error with code 2, the read returns the data.
\<close>

theorem master_raises_iff_response_nonzero_witness:
  "snd (master_write master0 bus3 0 4 0x11223344 15 0 0 True)
     = Some (Inl (AXIProtocolError 4 2))
   \<and> snd (master_read master0 bus3 0 4 True) = Some (Inr 0xCAFE)"
proof
  show "snd (master_write master0 bus3 0 4 0x11223344 15 0 0 True)
     = Some (Inl (AXIProtocolError 4 2))"
    by (rule iffD2 [OF conjunct1 [OF master_raises_iff_response_nonzero]],
        rule exI [of _ "1::nat"], rule exI [of _ "1::nat"], rule exI [of _ "2::nat"])
       (simp add: bus3_defs)
  show "snd (master_read master0 bus3 0 4 True) = Some (Inr 0xCAFE)"
    by (rule iffD2 [OF conjunct2 [OF master_raises_iff_response_nonzero]],
        rule exI [of _ "1::nat"], rule exI [of _ "2::nat"])
       (simp add: bus3_defs)
qed

text \<open>
  A write answered with \<^verbatim>\<open>OKAY\<close> returns 0; a read answered with \<^verbatim>\<open>SLVERR\<close> raises,
  whatever a later cycle carries.
\<close>

lemma write_okay_example:
  "snd (master_write master0 [ready_bus, ready_bus, idle_bus(BVALID := 1)] 0 4 7 15 0 0 True)
     = Some (Inr 0)"
  by (simp add: master_write_outcome first_sample_def bus3_defs)

lemma read_error_example:
  "snd (master_read master0 [ready_bus, ready_bus, idle_bus(RVALID := 1, RRESP := 2, RDATA := 9),
      response_bus] 0 4 True) = Some (Inl (AXIProtocolError 4 2))"
  by (simp add: master_read_outcome first_sample_def bus3_defs)

text \<open>
  Claim C8 (length of the master). \<^verbatim>\<open>__len__\<close> returns 2 to the power of the width of
  \<^verbatim>\<open>ARADDR\<close>, which is the number of bit vectors of that width: the size of the
  address space.
\<close>

theorem master_len_is_address_space:
  "master_len m = 2 ^ m_width m ARADDR
   \<and> card {bs :: bool list. length bs = m_width m ARADDR} = master_len m"
proof -
  have "card {bs :: bool list. set bs \<subseteq> UNIV \<and> length bs = m_width m ARADDR}
      = card (UNIV :: bool set) ^ m_width m ARADDR"
    by (rule card_lists_length_eq) simp
  then show ?thesis by (simp add: master_len_def)
qed

lemma send_write_address_targets:
  "filter (\<lambda>d. target d = BREADY \<or> target d = RREADY) (fst (send_write_address tr c a dl)) = []"
  by (simp add: send_write_address_def target_def Let_def split: option.splits prod.splits)

lemma send_write_data_targets:
  "filter (\<lambda>d. target d = BREADY \<or> target d = RREADY) (fst (send_write_data tr c v dl be)) = []"
  by (simp add: send_write_data_def target_def Let_def split: option.splits prod.splits)

lemma master_write_targets:
  "filter (\<lambda>d. target d = BREADY \<or> target d = RREADY)
     (fst (master_write m tr c a v be al dl sync)) = []"
proof -
  let ?c0 = "if sync then c + 1 else c"
  have "fst (master_write m tr c a v be al dl sync)
      = fst (send_write_address tr ?c0 a al) @ fst (send_write_data tr ?c0 v dl be)"
    by (simp add: master_write_def Let_def split: option.splits prod.splits)
  then show ?thesis
    by (simp add: send_write_address_targets send_write_data_targets)
qed

lemma master_read_targets:
  "filter (\<lambda>d. target d = BREADY \<or> target d = RREADY) (fst (master_read m tr c a sync)) = []"
  by (simp add: master_read_def target_def Let_def split: option.splits prod.splits)

lemma call_drives_targets:
  "filter (\<lambda>d. target d = BREADY \<or> target d = RREADY) (call_drives m tr c x) = []"
  by (cases x) (simp_all add: master_write_targets master_read_targets)

lemma apply_drives_keeps:
  "filter (\<lambda>d. target d = BREADY \<or> target d = RREADY) ds = [] \<Longrightarrow>
   m_bus (apply_drives ds m) BREADY = m_bus m BREADY \<and>
   m_bus (apply_drives ds m) RREADY = m_bus m RREADY"
proof (induction ds arbitrary: m)
  case Nil
  then show ?case by (simp add: apply_drives_def)
next
  case (Cons d ds)
  from Cons.prems have d: "target d \<noteq> BREADY" "target d \<noteq> RREADY"
    and rest: "filter (\<lambda>d. target d = BREADY \<or> target d = RREADY) ds = []"
    by (auto split: if_splits)
  have step: "apply_drives (d # ds) m = apply_drives ds (m\<lparr>m_bus := (m_bus m)(target d := snd (snd d))\<rparr>)"
    by (simp add: apply_drives_def)
  from Cons.IH [OF rest, of "m\<lparr>m_bus := (m_bus m)(target d := snd (snd d))\<rparr>"] d
  show ?case by (simp add: step)
qed

lemma master_calls_keeps:
  "m_bus (master_calls tr cs m) BREADY = m_bus m BREADY \<and>
   m_bus (master_calls tr cs m) RREADY = m_bus m RREADY"
proof (induction cs arbitrary: m)
  case Nil
  then show ?case by simp
next
  case (Cons cx cs)
  obtain c x where cx: "cx = (c, x)" by (cases cx)
  from Cons.IH [of "apply_drives (call_drives m tr c x) m"]
    apply_drives_keeps [OF call_drives_targets, of m tr c x m]
  show ?case by (simp add: cx)
qed

lemma await_bresp_iff:
  "(await_bresp m tr c = Some (k, r)) =
     (first_cycle (\<lambda>b. b BVALID \<noteq> 0 \<and> m_bus m BREADY \<noteq> 0) tr c k \<and> r = (tr ! k) BRESP)"
proof -
  have "(await_bresp m tr c = Some (k, r)) =
      (\<exists>b. first_sample (\<lambda>b. b BVALID \<noteq> 0 \<and> m_bus m BREADY \<noteq> 0) tr c = Some (k, b) \<and> r = b BRESP)"
    by (auto simp: await_bresp_def split: option.splits)
  then show ?thesis
    unfolding first_sample_iff by blast
qed

lemma await_rresp_iff:
  "(await_rresp m tr c = Some (k, d, r)) =
     (first_cycle (\<lambda>b. b RVALID \<noteq> 0 \<and> m_bus m RREADY \<noteq> 0) tr c k \<and>
      d = (tr ! k) RDATA \<and> r = (tr ! k) RRESP)"
proof -
  have "(await_rresp m tr c = Some (k, d, r)) =
      (\<exists>b. first_sample (\<lambda>b. b RVALID \<noteq> 0 \<and> m_bus m RREADY \<noteq> 0) tr c = Some (k, b) \<and>
           d = b RDATA \<and> r = b RRESP)"
    by (auto simp: await_rresp_def split: option.splits)
  then show ?thesis
    unfolding first_sample_iff by blast
qed

lemma await_bresp_None_iff:
  "(await_bresp m tr c = None) =
     (\<forall>j. c \<le> j \<and> j < length tr \<longrightarrow> \<not> ((tr ! j) BVALID \<noteq> 0 \<and> m_bus m BREADY \<noteq> 0))"
proof -
  have "(await_bresp m tr c = None) =
      (first_sample (\<lambda>b. b BVALID \<noteq> 0 \<and> m_bus m BREADY \<noteq> 0) tr c = None)"
    by (auto simp: await_bresp_def split: option.splits)
  then show ?thesis
    unfolding first_sample_None_iff .
qed

lemma await_rresp_None_iff:
  "(await_rresp m tr c = None) =
     (\<forall>j. c \<le> j \<and> j < length tr \<longrightarrow> \<not> ((tr ! j) RVALID \<noteq> 0 \<and> m_bus m RREADY \<noteq> 0))"
proof -
  have "(await_rresp m tr c = None) =
      (first_sample (\<lambda>b. b RVALID \<noteq> 0 \<and> m_bus m RREADY \<noteq> 0) tr c = None)"
    by (auto simp: await_rresp_def split: option.splits)
  then show ?thesis
    unfolding first_sample_None_iff .
qed

text \<open>
  Claim C9 (the ready signals of the master). The constructor drives \<^verbatim>\<open>BREADY\<close> and
  \<^verbatim>\<open>RREADY\<close> to 1; no call of \<^verbatim>\<open>write\<close> or \<^verbatim>\<open>read\<close> assigns either signal, so both
  are 1 after any sequence of calls. Hence, for a master after any sequence of calls,
  the response loop of a write entered in cycle \<open>c'\<close> ends exactly in the first cycle
  from \<open>c'\<close> on in which \<^verbatim>\<open>BVALID\<close> is high, with the \<^verbatim>\<open>BRESP\<close> of that cycle, and is
  still waiting at the end of the trace exactly when \<^verbatim>\<open>BVALID\<close> is low in every cycle
  from \<open>c'\<close> on; likewise for a read and \<^verbatim>\<open>RVALID\<close>. A whole \<^verbatim>\<open>write\<close> or
  \<^verbatim>\<open>read\<close> completes exactly when its phases meet their first ready cycles and its
  response loop the first cycle with the valid signal high.
\<close>

theorem master_ready_signals_stay_high:
  "m_bus (master_init m) BREADY = 1 \<and> m_bus (master_init m) RREADY = 1
   \<and> filter (\<lambda>d. target d = BREADY \<or> target d = RREADY) (call_drives m' tr c x) = []
   \<and> m_bus (master_calls tr cs (master_init m)) BREADY = 1
   \<and> m_bus (master_calls tr cs (master_init m)) RREADY = 1
   \<and> await_bresp (master_calls tr cs (master_init m)) tr' c'
       = (case first_sample (\<lambda>b. b BVALID \<noteq> 0) tr' c' of
            None \<Rightarrow> None | Some (k, b) \<Rightarrow> Some (k, b BRESP))
   \<and> await_rresp (master_calls tr cs (master_init m)) tr' c'
       = (case first_sample (\<lambda>b. b RVALID \<noteq> 0) tr' c' of
            None \<Rightarrow> None | Some (k, b) \<Rightarrow> Some (k, b RDATA, b RRESP))
   \<and> (await_bresp (master_calls tr cs (master_init m)) tr' c' = Some (k, r)) =
       (first_cycle (\<lambda>b. b BVALID \<noteq> 0) tr' c' k \<and> r = (tr' ! k) BRESP)
   \<and> (await_bresp (master_calls tr cs (master_init m)) tr' c' = None) =
       (\<forall>j. c' \<le> j \<and> j < length tr' \<longrightarrow> (tr' ! j) BVALID = 0)
   \<and> (await_rresp (master_calls tr cs (master_init m)) tr' c' = Some (k, d, r')) =
       (first_cycle (\<lambda>b. b RVALID \<noteq> 0) tr' c' k \<and> d = (tr' ! k) RDATA \<and> r' = (tr' ! k) RRESP)
   \<and> (await_rresp (master_calls tr cs (master_init m)) tr' c' = None) =
       (\<forall>j. c' \<le> j \<and> j < length tr' \<longrightarrow> (tr' ! j) RVALID = 0)
   \<and> (snd (master_write (master_calls tr cs (master_init m)) tr' c' address v be al dl sync)
        = Some out) =
       (\<exists>ka kd k.
          first_cycle (\<lambda>b. b AWREADY \<noteq> 0) tr' ((if sync then c' + 1 else c') + al) ka \<and>
          first_cycle (\<lambda>b. b WREADY \<noteq> 0) tr' ((if sync then c' + 1 else c') + dl) kd \<and>
          first_cycle (\<lambda>b. b BVALID \<noteq> 0) tr' (max (ka + 1) (kd + 1)) k \<and>
          out = (if (tr' ! k) BRESP \<noteq> 0 then Inl (AXIProtocolError address ((tr' ! k) BRESP))
                 else Inr ((tr' ! k) BRESP)))
   \<and> (snd (master_read (master_calls tr cs (master_init m)) tr' c' address sync) = Some out') =
       (\<exists>ka k.
          first_cycle (\<lambda>b. b ARREADY \<noteq> 0) tr' (if sync then c' + 1 else c') ka \<and>
          first_cycle (\<lambda>b. b RVALID \<noteq> 0) tr' (ka + 1) k \<and>
          out' = (if (tr' ! k) RRESP \<noteq> 0 then Inl (AXIProtocolError address ((tr' ! k) RRESP))
                  else Inr ((tr' ! k) RDATA)))"
proof -
  let ?M = "master_calls tr cs (master_init m)"
  have i: "m_bus (master_init m) BREADY = 1" "m_bus (master_init m) RREADY = 1"
    by (simp_all add: master_init_def)
  with master_calls_keeps [of tr cs "master_init m"]
  have h: "m_bus ?M BREADY = 1" "m_bus ?M RREADY = 1"
    by simp_all
  from h have pb: "(\<lambda>b. b BVALID \<noteq> 0 \<and> m_bus ?M BREADY \<noteq> 0) = (\<lambda>b::bus. b BVALID \<noteq> 0)"
    and pr: "(\<lambda>b. b RVALID \<noteq> 0 \<and> m_bus ?M RREADY \<noteq> 0) = (\<lambda>b::bus. b RVALID \<noteq> 0)"
    by simp_all
  have c3: "filter (\<lambda>d. target d = BREADY \<or> target d = RREADY) (call_drives m' tr c x) = []"
    by (rule call_drives_targets)
  have c6: "await_bresp ?M tr' c'
       = (case first_sample (\<lambda>b. b BVALID \<noteq> 0) tr' c' of
            None \<Rightarrow> None | Some (k, b) \<Rightarrow> Some (k, b BRESP))"
    by (simp only: await_bresp_def pb)
  have c7: "await_rresp ?M tr' c'
       = (case first_sample (\<lambda>b. b RVALID \<noteq> 0) tr' c' of
            None \<Rightarrow> None | Some (k, b) \<Rightarrow> Some (k, b RDATA, b RRESP))"
    by (simp only: await_rresp_def pr)
  have c8: "(await_bresp ?M tr' c' = Some (k, r)) =
       (first_cycle (\<lambda>b. b BVALID \<noteq> 0) tr' c' k \<and> r = (tr' ! k) BRESP)"
    using await_bresp_iff [of ?M tr' c' k r] h by simp
  have c9: "(await_bresp ?M tr' c' = None) =
       (\<forall>j. c' \<le> j \<and> j < length tr' \<longrightarrow> (tr' ! j) BVALID = 0)"
    using h by (simp add: await_bresp_None_iff)
  have c10: "(await_rresp ?M tr' c' = Some (k, d, r')) =
       (first_cycle (\<lambda>b. b RVALID \<noteq> 0) tr' c' k \<and> d = (tr' ! k) RDATA \<and> r' = (tr' ! k) RRESP)"
    using await_rresp_iff [of ?M tr' c' k d r'] h by simp
  have c11: "(await_rresp ?M tr' c' = None) =
       (\<forall>j. c' \<le> j \<and> j < length tr' \<longrightarrow> (tr' ! j) RVALID = 0)"
    using h by (simp add: await_rresp_None_iff)
  have c12: "(snd (master_write ?M tr' c' address v be al dl sync) = Some out) =
       (\<exists>ka kd k.
          first_cycle (\<lambda>b. b AWREADY \<noteq> 0) tr' ((if sync then c' + 1 else c') + al) ka \<and>
          first_cycle (\<lambda>b. b WREADY \<noteq> 0) tr' ((if sync then c' + 1 else c') + dl) kd \<and>
          first_cycle (\<lambda>b. b BVALID \<noteq> 0) tr' (max (ka + 1) (kd + 1)) k \<and>
          out = (if (tr' ! k) BRESP \<noteq> 0 then Inl (AXIProtocolError address ((tr' ! k) BRESP))
                 else Inr ((tr' ! k) BRESP)))"
    using master_write_iff [of ?M tr' c' address v be al dl sync out] h by simp
  have c13: "(snd (master_read ?M tr' c' address sync) = Some out') =
       (\<exists>ka k.
          first_cycle (\<lambda>b. b ARREADY \<noteq> 0) tr' (if sync then c' + 1 else c') ka \<and>
          first_cycle (\<lambda>b. b RVALID \<noteq> 0) tr' (ka + 1) k \<and>
          out' = (if (tr' ! k) RRESP \<noteq> 0 then Inl (AXIProtocolError address ((tr' ! k) RRESP))
                  else Inr ((tr' ! k) RDATA)))"
    using master_read_iff [of ?M tr' c' address sync out'] h by simp
  from i(1) i(2) c3 h(1) h(2) c6 c7 c8 c9 c10 c11 c12 c13 show ?thesis
    by (intro conjI)
qed

text \<open>
  Claim C9 at a concrete input: after one write on the trace of three cycles
  \<^verbatim>\<open>BREADY\<close> is still 1, a response loop entered in cycle 2 ends in cycle 2 with
  \<^verbatim>\<open>BRESP\<close> 2, and a further write raises the protocol error.
\<close>

theorem master_ready_signals_stay_high_witness:
  "m_bus (master_calls bus3 [(0, Write 4 0x11223344 15 0 0 True)] (master_init raw_master)) BREADY = 1
   \<and> await_bresp (master_calls bus3 [(0, Write 4 0x11223344 15 0 0 True)] (master_init raw_master))
       bus3 2 = Some (2, 2)
   \<and> snd (master_write (master_calls bus3 [(0, Write 4 0x11223344 15 0 0 True)] (master_init raw_master))
       bus3 0 4 0x11223344 15 0 0 True) = Some (Inl (AXIProtocolError 4 2))"
proof (intro conjI)
  note t = master_ready_signals_stay_high [where m = raw_master and tr = bus3
      and cs = "[(0, Write 4 0x11223344 15 0 0 True)]" and tr' = bus3]
  note t4 = t [THEN conjunct2, THEN conjunct2, THEN conjunct2, THEN conjunct1]
  note t8 = t [THEN conjunct2, THEN conjunct2, THEN conjunct2, THEN conjunct2, THEN conjunct2,
      THEN conjunct2, THEN conjunct2, THEN conjunct1]
  note t12 = t [THEN conjunct2, THEN conjunct2, THEN conjunct2, THEN conjunct2, THEN conjunct2,
      THEN conjunct2, THEN conjunct2, THEN conjunct2, THEN conjunct2, THEN conjunct2,
      THEN conjunct2, THEN conjunct1]
  show "m_bus (master_calls bus3 [(0, Write 4 0x11223344 15 0 0 True)] (master_init raw_master)) BREADY = 1"
    by (rule t4)
  show "await_bresp (master_calls bus3 [(0, Write 4 0x11223344 15 0 0 True)] (master_init raw_master))
       bus3 2 = Some (2, 2)"
    by (rule iffD2 [OF t8]) (simp add: bus3_defs)
  show "snd (master_write (master_calls bus3 [(0, Write 4 0x11223344 15 0 0 True)] (master_init raw_master))
       bus3 0 4 0x11223344 15 0 0 True) = Some (Inl (AXIProtocolError 4 2))"
    by (rule iffD2 [OF t12],
        rule exI [of _ "1::nat"], rule exI [of _ "1::nat"], rule exI [of _ "2::nat"])
       (simp add: bus3_defs)
qed

end
